theory Spec2Isabelle
  imports Main "HOL-Library.Sublist"
begin

section \<open>Values of the trace: the dynamically typed data the code walks over\<close>

text \<open>
  The trace events, the ground truth and the evaluation metadata are nested Python
  values: \<open>None\<close>, booleans, integers, strings, lists and dictionaries with string keys.
  The scalars are hashable (they can be keys of \<open>result["agents"]\<close>); lists and
  dictionaries are not. A dictionary is an association list read with \<open>map_of\<close>
  (one binding per key).
\<close>

datatype atom = ANone | ABool bool | AInt int | AStr string

datatype json = Atom atom | JList "json list" | JDict "(string \<times> json) list"

abbreviation JNone :: json where "JNone \<equiv> Atom ANone"
abbreviation JStr :: "string \<Rightarrow> json" where "JStr s \<equiv> Atom (AStr s)"
abbreviation JInt :: "int \<Rightarrow> json" where "JInt i \<equiv> Atom (AInt i)"
abbreviation JBool :: "bool \<Rightarrow> json" where "JBool b \<equiv> Atom (ABool b)"

text \<open>The exceptions the modelled code can raise. \<open>ValidationError\<close> is the one of the
  scoring library's \<open>ToolCall\<close>. \<open>WrappedException e\<close> is
  \<open>Exception(f"Error evaluating ...: {str(e)}")\<close>, raised from a handler that caught \<open>e\<close>.\<close>

datatype py_error = TypeError | KeyError | AttributeError | ValueError string
  | RecursionError | ValidationError | WrappedException py_error

definition py_bind :: "py_error + 'a \<Rightarrow> ('a \<Rightarrow> py_error + 'b) \<Rightarrow> py_error + 'b" where
  "py_bind m f = (case m of Inl e \<Rightarrow> Inl e | Inr x \<Rightarrow> f x)"

subsection \<open>Strings\<close>

fun starts_with :: "string \<Rightarrow> string \<Rightarrow> bool" where
  "starts_with s [] = True"
| "starts_with [] (p # ps) = False"
| "starts_with (c # cs) (p # ps) = (c = p \<and> starts_with cs ps)"

text \<open>\<open>sub in s\<close> for two strings.\<close>

fun str_contains :: "string \<Rightarrow> string \<Rightarrow> bool" where
  "str_contains [] sub = (sub = [])"
| "str_contains (c # cs) sub = (starts_with (c # cs) sub \<or> str_contains cs sub)"

text \<open>\<open>s.split("/")\<close>: one segment more than there are slashes.\<close>

fun split_slash :: "string \<Rightarrow> string list" where
  "split_slash [] = [[]]"
| "split_slash (c # cs) =
     (if c = CHR ''/'' then [] # split_slash cs
      else (case split_slash cs of [] \<Rightarrow> [[c]] | p # ps \<Rightarrow> (c # p) # ps))"

fun dec_nat :: "nat \<Rightarrow> string" where
  "dec_nat n = (if n < 10 then [char_of (48 + n)]
                else dec_nat (n div 10) @ [char_of (48 + n mod 10)])"

text \<open>
  How the interpreter turns values into text, the parameter \<open>rp\<close> of what follows:
  \<^item> \<open>render\<close>: the text Python prints for a list or a dictionary (its \<open>repr\<close>), which is
    not modelled;
  \<^item> \<open>max_str_digits\<close>: the number of digits beyond which the conversion of an integer
    to text raises \<open>ValueError\<close> (4300 by default, 0 for no limit);
  \<^item> \<open>max_depth\<close>: the number of nested lists and dictionaries \<open>repr\<close> enters before it
    raises \<open>RecursionError\<close>; it depends on the recursion limit and on the call stack.
\<close>

record printer =
  render :: "json \<Rightarrow> string"
  max_str_digits :: nat
  max_depth :: nat

text \<open>\<open>str(x)\<close>, as the f-strings and the \<open>str\<close> calls use it: the text, which is exact
  on the scalars.\<close>

fun str_atom :: "atom \<Rightarrow> string" where
  "str_atom ANone = ''None''"
| "str_atom (ABool b) = (if b then ''True'' else ''False'')"
| "str_atom (AInt i) = (if i < 0 then CHR ''-'' # dec_nat (nat (- i)) else dec_nat (nat i))"
| "str_atom (AStr s) = s"

fun py_str :: "printer \<Rightarrow> json \<Rightarrow> string" where
  "py_str rp (Atom a) = str_atom a"
| "py_str rp v = render rp v"

text \<open>An integer of more than \<open>max_str_digits\<close> digits.\<close>

definition int_too_long :: "printer \<Rightarrow> int \<Rightarrow> bool" where
  "int_too_long rp i \<longleftrightarrow> max_str_digits rp \<noteq> 0 \<and> 10 ^ max_str_digits rp \<le> \<bar>i\<bar>"

text \<open>
  The exception that turning a value into text raises, if it raises one: \<open>str\<close> of an
  integer, and \<open>repr\<close> of a list or a dictionary, which visits the elements in order, \<open>n\<close>
  being the number of lists and dictionaries already entered. Strings, \<open>None\<close> and
  booleans never raise.
\<close>

fun str_error :: "printer \<Rightarrow> nat \<Rightarrow> json \<Rightarrow> py_error option"
  and str_errors :: "printer \<Rightarrow> nat \<Rightarrow> json list \<Rightarrow> py_error option"
  and str_errors_kv :: "printer \<Rightarrow> nat \<Rightarrow> (string \<times> json) list \<Rightarrow> py_error option"
  where
  "str_error rp n (Atom a) =
     (case a of
        AInt i \<Rightarrow>
          if int_too_long rp i
          then Some (ValueError ''Exceeds the limit for integer string conversion'')
          else None
      | _ \<Rightarrow> None)"
| "str_error rp n (JList xs) =
     (if max_depth rp \<le> n then Some RecursionError else str_errors rp (Suc n) xs)"
| "str_error rp n (JDict kvs) =
     (if max_depth rp \<le> n then Some RecursionError else str_errors_kv rp (Suc n) kvs)"
| "str_errors rp n [] = None"
| "str_errors rp n (x # xs) =
     (case str_error rp n x of Some e \<Rightarrow> Some e | None \<Rightarrow> str_errors rp n xs)"
| "str_errors_kv rp n [] = None"
| "str_errors_kv rp n (kv # kvs) =
     (case str_error rp n (snd kv) of Some e \<Rightarrow> Some e | None \<Rightarrow> str_errors_kv rp n kvs)"

text \<open>\<open>f"{x}"\<close> and \<open>str(x)\<close> where the code can be left by their exception.\<close>

definition py_format :: "printer \<Rightarrow> json \<Rightarrow> py_error + string" where
  "py_format rp v = (case str_error rp 0 v of Some e \<Rightarrow> Inl e | None \<Rightarrow> Inr (py_str rp v))"

subsection \<open>The operations of the duck-typed accesses\<close>

text \<open>\<open>key in obj\<close> for a string \<open>key\<close>: key membership on a dictionary, element
  membership on a list, substring test on a string, \<open>TypeError\<close> on the other scalars.\<close>

fun py_contains :: "string \<Rightarrow> json \<Rightarrow> py_error + bool" where
  "py_contains k (JDict kvs) = Inr (map_of kvs k \<noteq> None)"
| "py_contains k (JList xs) = Inr (JStr k \<in> set xs)"
| "py_contains k (Atom (AStr s)) = Inr (str_contains s k)"
| "py_contains k (Atom a) = Inl TypeError"

text \<open>\<open>obj[key]\<close> for a string \<open>key\<close>: only a dictionary can be indexed by a string.\<close>

fun py_getitem :: "json \<Rightarrow> string \<Rightarrow> py_error + json" where
  "py_getitem (JDict kvs) k = (case map_of kvs k of None \<Rightarrow> Inl KeyError | Some v \<Rightarrow> Inr v)"
| "py_getitem v k = Inl TypeError"

text \<open>\<open>obj.get(key, default)\<close>: only dictionaries have the method.\<close>

fun py_get :: "json \<Rightarrow> string \<Rightarrow> json \<Rightarrow> py_error + json" where
  "py_get (JDict kvs) k d = Inr (case map_of kvs k of None \<Rightarrow> d | Some v \<Rightarrow> v)"
| "py_get v k d = Inl AttributeError"

text \<open>\<open>for x in obj\<close>: the elements of a list, the keys of a dictionary, the
  characters of a string; the other scalars are not iterable.\<close>

fun py_iter :: "json \<Rightarrow> py_error + json list" where
  "py_iter (JList xs) = Inr xs"
| "py_iter (JDict kvs) = Inr (map (\<lambda>kv. JStr (fst kv)) kvs)"
| "py_iter (Atom (AStr s)) = Inr (map (\<lambda>c. JStr [c]) s)"
| "py_iter (Atom a) = Inl TypeError"

text \<open>\<open>obj.split("/")\<close>: only strings have the method.\<close>

fun py_split :: "json \<Rightarrow> py_error + string list" where
  "py_split (Atom (AStr s)) = Inr (split_slash s)"
| "py_split v = Inl AttributeError"

text \<open>The key under which a value is stored in a Python dictionary: \<open>True\<close> and \<open>1\<close>
  (\<open>False\<close> and \<open>0\<close>) are equal and hash alike, so they are one key; a list or a
  dictionary is unhashable.\<close>

fun norm_key :: "atom \<Rightarrow> atom" where
  "norm_key (ABool b) = AInt (if b then 1 else 0)"
| "norm_key a = a"

fun hash_key :: "json \<Rightarrow> py_error + atom" where
  "hash_key (Atom a) = Inr (norm_key a)"
| "hash_key v = Inl TypeError"

section \<open>helpers/tool\_usage\_extractor.py\<close>

record agent_tool_call =
  at_tool_name :: json
  at_parameters :: json
  at_timestamp :: json

record tool_call =
  tc_agent_id :: json
  tc_tool_name :: json
  tc_parameters :: json
  tc_timestamp :: json

record agent_record =
  agent_id :: json
  agent_alias_id :: json
  agent_name :: json
  agent_tool_calls :: "agent_tool_call list"

text \<open>\<open>result = {"agents": {}, "tool_calls": []}\<close>\<close>

record usage_report =
  agents :: "atom \<rightharpoonup> agent_record"
  tool_calls :: "tool_call list"

definition empty_report :: usage_report where
  "empty_report = \<lparr>agents = Map.empty, tool_calls = []\<rparr>"

text \<open>
  The body of the \<open>try\<close> mutates \<open>result\<close> in place, so an exception leaves the
  changes made before it: every step returns the report as it stands together with the
  exception, if one was raised.
\<close>

type_synonym outcome = "usage_report \<times> py_error option"

text \<open>Lines 25-38: the direct identity of the event. The f-string of line 29 is
  evaluated whether or not the event has a \<open>collaboratorName\<close>.\<close>

definition identity_step :: "printer \<Rightarrow> json \<Rightarrow> usage_report \<Rightarrow> outcome" where
  "identity_step rp trace_event r =
     (case py_contains ''agentId'' trace_event of
        Inl e \<Rightarrow> (r, Some e)
      | Inr False \<Rightarrow> (r, None)
      | Inr True \<Rightarrow>
         (case py_bind (py_getitem trace_event ''agentId'') (\<lambda>aid.
               py_bind (py_get trace_event ''agentAliasId'' (JStr [])) (\<lambda>alias.
               py_bind (py_format rp aid) (\<lambda>shown.
               py_bind (py_get trace_event ''collaboratorName''
                          (JStr (''Agent-'' @ shown))) (\<lambda>name.
               py_bind (hash_key aid) (\<lambda>k. Inr (aid, alias, name, k)))))) of
            Inl e \<Rightarrow> (r, Some e)
          | Inr (aid, alias, name, k) \<Rightarrow>
             if agents r k = None
             then (r\<lparr>agents := (agents r)(k \<mapsto>
                      \<lparr>agent_id = aid, agent_alias_id = alias, agent_name = name,
                       agent_tool_calls = []\<rparr>)\<rparr>, None)
             else (r, None)))"

text \<open>Lines 44-56: one entry of the caller chain.\<close>

definition caller_body :: "json \<Rightarrow> usage_report \<Rightarrow> outcome" where
  "caller_body caller r =
     (case py_contains ''agentAliasArn'' caller of
        Inl e \<Rightarrow> (r, Some e)
      | Inr False \<Rightarrow> (r, None)
      | Inr True \<Rightarrow>
         (case py_bind (py_getitem caller ''agentAliasArn'') py_split of
            Inl e \<Rightarrow> (r, Some e)
          | Inr arn_parts \<Rightarrow>
             if length arn_parts \<ge> 2 then
               (let caller_agent_id = arn_parts ! (length arn_parts - 2) in
                if agents r (AStr caller_agent_id) = None
                then (r\<lparr>agents := (agents r)(AStr caller_agent_id \<mapsto>
                         \<lparr>agent_id = JStr caller_agent_id,
                          agent_alias_id =
                            JStr (if length arn_parts > 2 then last arn_parts else []),
                          agent_name = JStr (''Agent-'' @ caller_agent_id),
                          agent_tool_calls = []\<rparr>)\<rparr>, None)
                else (r, None))
             else (r, None)))"

text \<open>Line 43: the loop over the caller chain; an exception ends it.\<close>

fun caller_loop :: "json list \<Rightarrow> usage_report \<Rightarrow> outcome" where
  "caller_loop [] r = (r, None)"
| "caller_loop (caller # callers) r =
     (case caller_body caller r of
        (r', Some e) \<Rightarrow> (r', Some e)
      | (r', None) \<Rightarrow> caller_loop callers r')"

text \<open>Lines 41-43.\<close>

definition caller_chain_step :: "json \<Rightarrow> usage_report \<Rightarrow> outcome" where
  "caller_chain_step trace_event r =
     (case py_contains ''callerChain'' trace_event of
        Inl e \<Rightarrow> (r, Some e)
      | Inr False \<Rightarrow> (r, None)
      | Inr True \<Rightarrow>
         (case py_bind (py_getitem trace_event ''callerChain'') py_iter of
            Inl e \<Rightarrow> (r, Some e)
          | Inr callers \<Rightarrow> caller_loop callers r))"

text \<open>
  Lines 58-80 only read the event. The result is \<open>None\<close> where the code falls out of
  the nested tests or reaches \<open>continue\<close>, and the tool name with the parameters where
  it goes on to line 82.
\<close>

definition when_in :: "string \<Rightarrow> json \<Rightarrow> (json \<Rightarrow> py_error + 'a option) \<Rightarrow> py_error + 'a option"
  where
  "when_in k obj f =
     py_bind (py_contains k obj) (\<lambda>present.
       if present then py_bind (py_getitem obj k) f else Inr None)"

definition tool_of_action_group :: "json \<Rightarrow> py_error + (json \<times> json) option" where
  "tool_of_action_group action_group_input =
     py_bind (py_contains ''function'' action_group_input) (\<lambda>is_function.
       if is_function then
         py_bind (py_get action_group_input ''function'' JNone) (\<lambda>tool_name.
         py_bind (py_get action_group_input ''parameters'' (JDict [])) (\<lambda>parameters.
         Inr (Some (tool_name, parameters))))
       else
         py_bind (py_contains ''apiPath'' action_group_input) (\<lambda>is_api.
           if is_api then
             py_bind (py_get action_group_input ''apiPath'' JNone) (\<lambda>tool_name.
             py_bind (py_get action_group_input ''requestBody'' (JDict [])) (\<lambda>parameters.
             Inr (Some (tool_name, parameters))))
           else Inr None))"

definition find_invocation :: "json \<Rightarrow> py_error + (json \<times> json) option" where
  "find_invocation trace_event =
     when_in ''trace'' trace_event (\<lambda>trace.
       py_bind (py_contains ''orchestrationTrace'' trace) (\<lambda>present.
         if present then
           py_bind (py_getitem trace_event ''trace'') (\<lambda>trace'.
           py_bind (py_getitem trace' ''orchestrationTrace'') (\<lambda>orchestration_trace.
             when_in ''invocationInput'' orchestration_trace (\<lambda>invocation_input.
               when_in ''actionGroupInvocationInput'' invocation_input
                 tool_of_action_group)))
         else Inr None))"

text \<open>Lines 82-100: the record is appended to the flat list, then to the list of its
  agent when that agent has a record.\<close>

definition record_tool_call :: "json \<Rightarrow> json \<Rightarrow> json \<Rightarrow> usage_report \<Rightarrow> outcome" where
  "record_tool_call trace_event tool_name parameters r =
     (case py_bind (py_get trace_event ''agentId'' (JStr ''unknown'')) (\<lambda>aid.
           py_bind (py_get trace_event ''timestamp'' (JStr [])) (\<lambda>ts. Inr (aid, ts))) of
        Inl e \<Rightarrow> (r, Some e)
      | Inr (aid, ts) \<Rightarrow>
         (let r1 = r\<lparr>tool_calls := tool_calls r @
                     [\<lparr>tc_agent_id = aid, tc_tool_name = tool_name,
                       tc_parameters = parameters, tc_timestamp = ts\<rparr>]\<rparr>
          in case hash_key aid of
               Inl e \<Rightarrow> (r1, Some e)
             | Inr k \<Rightarrow>
                (case agents r1 k of
                   None \<Rightarrow> (r1, None)
                 | Some a \<Rightarrow>
                    (r1\<lparr>agents := (agents r1)(k \<mapsto>
                        a\<lparr>agent_tool_calls := agent_tool_calls a @
                           [\<lparr>at_tool_name = tool_name, at_parameters = parameters,
                             at_timestamp = ts\<rparr>]\<rparr>)\<rparr>, None))))"

definition tool_step :: "json \<Rightarrow> usage_report \<Rightarrow> outcome" where
  "tool_step trace_event r =
     (case find_invocation trace_event of
        Inl e \<Rightarrow> (r, Some e)
      | Inr None \<Rightarrow> (r, None)
      | Inr (Some (tool_name, parameters)) \<Rightarrow>
          record_tool_call trace_event tool_name parameters r)"

text \<open>Lines 25-100: the body of the \<open>try\<close>.\<close>

definition process_event :: "printer \<Rightarrow> json \<Rightarrow> usage_report \<Rightarrow> outcome" where
  "process_event rp trace_event r =
     (case identity_step rp trace_event r of
        (r1, Some e) \<Rightarrow> (r1, Some e)
      | (r1, None) \<Rightarrow>
         (case caller_chain_step trace_event r1 of
            (r2, Some e) \<Rightarrow> (r2, Some e)
          | (r2, None) \<Rightarrow> tool_step trace_event r2))"

text \<open>What the handler of lines 101-103 prints.\<close>

datatype log_line = ErrorLine py_error | EventLine json

text \<open>
  Lines 24-103: one turn of the loop, the \<open>try\<close> with its handler. The handler prints
  the exception, then the event; nothing guards it, so an exception raised while the
  event is turned into text leaves the function.
\<close>

definition extract_step ::
  "printer \<Rightarrow> usage_report \<times> log_line list \<Rightarrow> json \<Rightarrow>
   py_error + (usage_report \<times> log_line list)"
  where
  "extract_step rp st trace_event =
     (case process_event rp trace_event (fst st) of
        (r', None) \<Rightarrow> Inr (r', snd st)
      | (r', Some e) \<Rightarrow>
         (case str_error rp 0 trace_event of
            Some e' \<Rightarrow> Inl e'
          | None \<Rightarrow> Inr (r', snd st @ [ErrorLine e, EventLine trace_event])))"

text \<open>Line 23: the loop.\<close>

fun extract_loop ::
  "printer \<Rightarrow> json list \<Rightarrow> usage_report \<times> log_line list \<Rightarrow>
   py_error + (usage_report \<times> log_line list)" where
  "extract_loop rp [] st = Inr st"
| "extract_loop rp (trace_event # rest) st =
     (case extract_step rp st trace_event of
        Inl e \<Rightarrow> Inl e
      | Inr st' \<Rightarrow> extract_loop rp rest st')"

text \<open>\<open>extract_from_trace\<close>: the \<open>for\<close> statement itself is outside the \<open>try\<close>, so
  an argument that cannot be iterated raises. The result is the report with the lines
  printed.\<close>

definition extract_from_trace ::
  "printer \<Rightarrow> json \<Rightarrow> py_error + (usage_report \<times> log_line list)" where
  "extract_from_trace rp trace_events =
     py_bind (py_iter trace_events) (\<lambda>evs. extract_loop rp evs (empty_report, []))"

section \<open>helpers/deepeval\_helper.py\<close>








section \<open>evaluators/agents/topic\_adherence\_evaluator.py\<close>

text \<open>The message classes of the scoring library: \<open>ToolCall(name, args)\<close>,
  \<open>HumanMessage(content)\<close>, \<open>AIMessage(content, tool_calls)\<close> with \<open>tool_calls\<close>
  defaulting to \<open>None\<close>, and \<open>ToolMessage(content)\<close>. Their construction is taken to
  succeed.\<close>

datatype ragas_call = RagasToolCall string "(string \<times> string) list"

datatype message =
    HumanMessage string
  | AIMessage string "ragas_call list option"
  | ToolMessage string

text \<open>\<open>obj.items()\<close>: only dictionaries have the method.\<close>

fun py_items :: "json \<Rightarrow> py_error + (string \<times> json) list" where
  "py_items (JDict kvs) = Inr kvs"
| "py_items v = Inl AttributeError"

text \<open>The truth value of \<open>if agent_answer:\<close>.\<close>

fun py_truthy :: "json \<Rightarrow> bool" where
  "py_truthy (Atom ANone) = False"
| "py_truthy (Atom (ABool b)) = b"
| "py_truthy (Atom (AInt i)) = (i \<noteq> 0)"
| "py_truthy (Atom (AStr s)) = (s \<noteq> [])"
| "py_truthy (JList xs) = (xs \<noteq> [])"
| "py_truthy (JDict kvs) = (kvs \<noteq> [])"

text \<open>Lines 62-70: the \<open>ToolCall\<close> built from the action group input.\<close>

definition make_tool_call :: "printer \<Rightarrow> json \<Rightarrow> py_error + ragas_call" where
  "make_tool_call rp action_input =
     py_bind (py_get action_input ''function'' (JStr [])) (\<lambda>f.
     py_bind (py_get action_input ''parameters'' (JDict [])) (\<lambda>ps.
     py_bind (py_items ps) (\<lambda>kvs.
       Inr (RagasToolCall (py_str rp f) (map (\<lambda>kv. (fst kv, py_str rp (snd kv))) kvs)))))"

text \<open>Lines 82-84.\<close>

definition tool_output :: "printer \<Rightarrow> json \<Rightarrow> py_error + string" where
  "tool_output rp out = py_bind (py_get out ''text'' (JStr [])) (\<lambda>t. Inr (py_str rp t))"

text \<open>Lines 58-76: the messages the tool call of an orchestration trace adds.\<close>

definition invocation_messages :: "printer \<Rightarrow> json \<Rightarrow> py_error + message list" where
  "invocation_messages rp orc_trace =
     py_bind (py_contains ''invocationInput'' orc_trace) (\<lambda>b.
       if b then
         py_bind (py_getitem orc_trace ''invocationInput'') (\<lambda>invoc_input.
         py_bind (py_contains ''actionGroupInvocationInput'' invoc_input) (\<lambda>b'.
           if b' then
             py_bind (py_getitem invoc_input ''actionGroupInvocationInput'') (\<lambda>action_input.
             py_bind (make_tool_call rp action_input) (\<lambda>tool_call.
               Inr [AIMessage ''Using tool to process request'' (Some [tool_call])]))
           else Inr []))
       else Inr [])"

text \<open>Lines 79-85: the messages the tool output of an orchestration trace adds.\<close>

definition observation_messages :: "printer \<Rightarrow> json \<Rightarrow> py_error + message list" where
  "observation_messages rp orc_trace =
     py_bind (py_contains ''observation'' orc_trace) (\<lambda>b.
       if b then
         py_bind (py_getitem orc_trace ''observation'') (\<lambda>obs.
         py_bind (py_contains ''actionGroupInvocationOutput'' obs) (\<lambda>b'.
           if b' then
             py_bind (py_getitem obs ''actionGroupInvocationOutput'') (\<lambda>out.
             py_bind (tool_output rp out) (\<lambda>t. Inr [ToolMessage t]))
           else Inr []))
       else Inr [])"

text \<open>Lines 52-85: the messages one event adds.\<close>

definition event_messages :: "printer \<Rightarrow> json \<Rightarrow> py_error + message list" where
  "event_messages rp event =
     py_bind (py_contains ''trace'' event) (\<lambda>b.
       if b then
         py_bind (py_getitem event ''trace'') (\<lambda>t.
         py_bind (py_getitem t ''trace'') (\<lambda>trace_obj.
         py_bind (py_contains ''orchestrationTrace'' trace_obj) (\<lambda>b'.
           if b' then
             py_bind (py_getitem trace_obj ''orchestrationTrace'') (\<lambda>orc_trace.
             py_bind (invocation_messages rp orc_trace) (\<lambda>m1.
             py_bind (observation_messages rp orc_trace) (\<lambda>m2. Inr (m1 @ m2))))
           else Inr [])))
       else Inr [])"

text \<open>Line 51: the loop; nothing catches an exception.\<close>

fun trace_loop :: "printer \<Rightarrow> json list \<Rightarrow> message list \<Rightarrow> py_error + message list" where
  "trace_loop rp [] messages = Inr messages"
| "trace_loop rp (event # rest) messages =
     (case event_messages rp event of
        Inl e \<Rightarrow> Inl e
      | Inr ms \<Rightarrow> trace_loop rp rest (messages @ ms))"

text \<open>\<open>_convert_trace_to_messages\<close>; \<open>question\<close> is \<open>self.question\<close>.\<close>

definition convert_trace_to_messages ::
  "printer \<Rightarrow> json \<Rightarrow> json \<Rightarrow> json \<Rightarrow> py_error + message list" where
  "convert_trace_to_messages rp question full_trace agent_answer =
     py_bind (py_iter full_trace) (\<lambda>events.
     py_bind (trace_loop rp events [HumanMessage (py_str rp question)]) (\<lambda>messages.
       Inr (if py_truthy agent_answer
            then messages @ [AIMessage (py_str rp agent_answer) None]
            else messages)))"

text \<open>Lines 186-196 of \<open>evaluate_response\<close>: what is computed before the scorer is
  built and called.\<close>

definition prepare_sample ::
  "printer \<Rightarrow> json \<Rightarrow> json \<Rightarrow> py_error + (string list \<times> message list)" where
  "prepare_sample rp question metadata =
     py_bind (py_getitem metadata ''ground_truth'') (\<lambda>ground_truth.
     py_bind (py_get ground_truth ''topics'' (JList [])) (\<lambda>tv.
     py_bind (py_iter tv) (\<lambda>ts.
     py_bind (py_get metadata ''full_trace'' (JList [])) (\<lambda>full_trace.
     py_bind (py_get metadata ''agent_response'' (JStr [])) (\<lambda>agent_response.
       if map (py_str rp) ts = []
       then Inl (ValueError ''No topics provided in ground truth for evaluation'')
       else py_bind (convert_trace_to_messages rp question full_trace agent_response)
              (\<lambda>messages. Inr (map (py_str rp) ts, messages)))))))"

text \<open>\<open>', '.join(topics)\<close>\<close>

fun join_comma :: "string list \<Rightarrow> string" where
  "join_comma [] = []"
| "join_comma [t] = t"
| "join_comma (t # ts) = t @ '', '' @ join_comma ts"

record 's evaluation =
  score :: 's
  explanation :: string
  evaluated_topics :: "string list"
  conversation_turns :: nat

text \<open>
  \<open>evaluate_response\<close>. The scorer (the sample, the metric and the model behind it)
  is outside the repository: it is the parameter \<open>scorer\<close>, a function of the state
  \<open>w\<close> of the outside world, which it may change, of the messages and of the topics,
  that returns a score or raises. The \<open>except\<close> of lines 221-222 wraps every
  exception of the body and raises again.
\<close>

definition evaluate_response ::
  "printer \<Rightarrow> json \<Rightarrow>
   ('w \<Rightarrow> message list \<Rightarrow> string list \<Rightarrow> (py_error + 's) \<times> 'w) \<Rightarrow>
   'w \<Rightarrow> json \<Rightarrow> (py_error + 's evaluation) \<times> 'w" where
  "evaluate_response rp question scorer w metadata =
     (case prepare_sample rp question metadata of
        Inl e \<Rightarrow> (Inl (WrappedException e), w)
      | Inr (topics, messages) \<Rightarrow>
         (case scorer w messages topics of
            (Inl e, w') \<Rightarrow> (Inl (WrappedException e), w')
          | (Inr s, w') \<Rightarrow>
             (Inr \<lparr>score = s,
                   explanation = ''Response adherence to topics: '' @ join_comma topics,
                   evaluated_topics = topics,
                   conversation_turns = length messages\<rparr>, w')))"

section \<open>Notions used to state the properties\<close>

subsection \<open>Reading nested mappings\<close>

text \<open>\<open>d.get(k, dflt)\<close> on the bindings of a dictionary.\<close>

definition field :: "(string \<times> json) list \<Rightarrow> string \<Rightarrow> json \<Rightarrow> json" where
  "field d k dflt = (case map_of d k of None \<Rightarrow> dflt | Some v \<Rightarrow> v)"

text \<open>The value found by descending a chain of keys through nested dictionaries;
  \<open>None\<close> when a key is missing or a value on the way is not a dictionary.\<close>

fun at_path :: "string list \<Rightarrow> json \<Rightarrow> json option" where
  "at_path [] v = Some v"
| "at_path (k # ks) (JDict d) = (case map_of d k of None \<Rightarrow> None | Some v \<Rightarrow> at_path ks v)"
| "at_path (k # ks) v = None"


subsection \<open>The extractor\<close>

text \<open>The report after the events \<open>evs\<close>, started from the report \<open>r\<close>: the body of the
  loop applied to each event in turn, exceptions or not.\<close>

definition run_events :: "printer \<Rightarrow> usage_report \<Rightarrow> json list \<Rightarrow> usage_report" where
  "run_events rp r evs = foldl (\<lambda>r ev. fst (process_event rp ev r)) r evs"

text \<open>What one event makes the handler print, and the records it adds to the flat list,
  read off the event alone (processed on the empty report).\<close>

definition event_log :: "printer \<Rightarrow> json \<Rightarrow> log_line list" where
  "event_log rp ev =
     (case snd (process_event rp ev empty_report) of
        None \<Rightarrow> [] | Some e \<Rightarrow> [ErrorLine e, EventLine ev])"

definition event_tool_calls :: "printer \<Rightarrow> json \<Rightarrow> tool_call list" where
  "event_tool_calls rp ev = tool_calls (fst (process_event rp ev empty_report))"

text \<open>The events that do not stop the extraction: those whose processing raises nothing
  and those whose content the handler can print.\<close>

definition handled :: "printer \<Rightarrow> json \<Rightarrow> bool" where
  "handled rp ev \<longleftrightarrow>
     snd (process_event rp ev empty_report) = None \<or> str_error rp 0 ev = None"





text \<open>The entry an agent record holds for a record of the flat list, and the entries of
  the calls of a list that are attributed to the agent stored under the key \<open>k\<close>.\<close>

definition entry_of :: "tool_call \<Rightarrow> agent_tool_call" where
  "entry_of tc = \<lparr>at_tool_name = tc_tool_name tc, at_parameters = tc_parameters tc,
                  at_timestamp = tc_timestamp tc\<rparr>"

definition attributed :: "atom \<Rightarrow> tool_call list \<Rightarrow> agent_tool_call list" where
  "attributed k tcs = map entry_of (filter (\<lambda>tc. hash_key (tc_agent_id tc) = Inr k) tcs)"

text \<open>The invariant of the lists of the agents.\<close>

definition sublists_ok :: "usage_report \<Rightarrow> bool" where
  "sublists_ok r \<longleftrightarrow>
     (\<forall>k a. agents r k = Some a \<longrightarrow> subseq (agent_tool_calls a) (attributed k (tool_calls r)))"

text \<open>Relations between a report and a later one: every record is still there with
  its id, alias and name (\<open>keeps\<close>), or is still there as it was (\<open>preserves\<close>); the
  later report is the earlier one or has one more agent, with no tool call (\<open>grows\<close>).\<close>

definition same_identity :: "agent_record \<Rightarrow> agent_record \<Rightarrow> bool" where
  "same_identity a a' \<longleftrightarrow> agent_id a' = agent_id a \<and> agent_alias_id a' = agent_alias_id a
     \<and> agent_name a' = agent_name a"

definition keeps :: "usage_report \<Rightarrow> usage_report \<Rightarrow> bool" where
  "keeps r r' \<longleftrightarrow> (\<forall>k a. agents r k = Some a \<longrightarrow> (\<exists>a'. agents r' k = Some a' \<and> same_identity a a'))"


definition grows :: "usage_report \<Rightarrow> usage_report \<Rightarrow> bool" where
  "grows r r' \<longleftrightarrow> r' = r \<or>
     (\<exists>k a. agents r k = None \<and> agent_tool_calls a = [] \<and> r' = r\<lparr>agents := (agents r)(k \<mapsto> a)\<rparr>)"

subsection \<open>The adapters\<close>








subsection \<open>The message reconstruction\<close>







subsection \<open>Example inputs\<close>

text \<open>The interpreter of the examples: the default limit of 4300 digits, room for 1000
  nested lists and dictionaries, and a rendering of lists and dictionaries that no
  example looks at.\<close>

definition repr_stub :: printer where
  "repr_stub = \<lparr>render = (\<lambda>v. ''...''), max_str_digits = 4300, max_depth = 1000\<rparr>"

definition identity_event :: "string \<Rightarrow> string \<Rightarrow> string \<Rightarrow> json" where
  "identity_event a alias n =
     JDict [(''agentId'', JStr a), (''agentAliasId'', JStr alias), (''collaboratorName'', JStr n)]"

definition invocation_binding :: "(string \<times> json) list \<Rightarrow> string \<times> json" where
  "invocation_binding ag =
     (''trace'', JDict [(''orchestrationTrace'',
        JDict [(''invocationInput'', JDict [(''actionGroupInvocationInput'', JDict ag)])])])"

definition action_group_event :: "(string \<times> json) list \<Rightarrow> (string \<times> json) list \<Rightarrow> json" where
  "action_group_event hdr ag = JDict (hdr @ [invocation_binding ag])"

definition example_trace :: "json list" where
  "example_trace =
     [action_group_event [] [(''function'', JStr ''early'')],
      identity_event ''A'' ''v1'' ''Planner'',
      action_group_event [(''agentId'', JStr ''A'')] [(''function'', JStr ''search'')],
      action_group_event [(''agentId'', JStr ''B'')] [(''apiPath'', JStr ''/orders'')],
      action_group_event [(''agentId'', JStr ''A'')] [(''function'', JStr ''book'')]]"

text \<open>An integer of 4301 digits, and a list nested \<open>n\<close> lists deep.\<close>

definition long_int :: int where
  "long_int = 10 ^ 4300"

fun nested :: "nat \<Rightarrow> json" where
  "nested 0 = JList []"
| "nested (Suc n) = JList [nested n]"

text \<open>Two events whose caller chain is the number 5, one holding the long integer, the
  other a list nested 1000 deep.\<close>

definition long_int_event :: json where
  "long_int_event = JDict [(''callerChain'', JInt 5), (''sessionId'', JInt long_int)]"

definition deep_event :: json where
  "deep_event = JDict [(''callerChain'', JInt 5), (''payload'', nested 1000)]"



text \<open>A caller chain whose first entry is a number and whose second entry has the ARN
  \<open>a/b/c\<close>.\<close>

definition unreached_caller_event :: json where
  "unreached_caller_event =
     JDict [(''callerChain'', JList [JInt 5, JDict [(''agentAliasArn'', JStr ''a/b/c'')]])]"




definition raw_invocation_event :: json where
  "raw_invocation_event =
     JDict [(''trace'', JDict [(''trace'', JDict [(''orchestrationTrace'',
       JDict [(''invocationInput'', JDict [(''actionGroupInvocationInput'',
         JDict [(''function'', JStr ''search''),
                (''parameters'', JDict [(''q'', JStr ''x'')])])])])])])]"


section \<open>Auxiliary lemmas\<close>

lemma identity_step_err:
  "snd (identity_step rp ev r) = snd (identity_step rp ev r')"
  by (simp add: identity_step_def split: sum.splits bool.splits prod.splits)

lemma identity_step_tool_calls:
  "tool_calls (fst (identity_step rp ev r)) = tool_calls r"
  by (simp add: identity_step_def split: sum.splits bool.splits prod.splits)

lemma caller_body_err:
  "snd (caller_body c r) = snd (caller_body c r')"
  unfolding caller_body_def Let_def
  by (cases "py_contains ''agentAliasArn'' c";
      cases "py_bind (py_getitem c ''agentAliasArn'') py_split"; simp split: bool.splits)

lemma caller_body_tool_calls:
  "tool_calls (fst (caller_body c r)) = tool_calls r"
  by (simp add: caller_body_def Let_def split: sum.split bool.split)

lemma caller_loop_Cons:
  "caller_loop (c # cs) r =
     (if snd (caller_body c r) = None then caller_loop cs (fst (caller_body c r))
      else caller_body c r)"
  by (cases "caller_body c r") (auto split: option.splits)

lemma caller_loop_err:
  "snd (caller_loop cs r) = snd (caller_loop cs r')"
proof (induction cs arbitrary: r r')
  case Nil
  show ?case by simp
next
  case (Cons c cs)
  have e: "snd (caller_body c r) = snd (caller_body c r')" by (rule caller_body_err)
  show ?case
    unfolding caller_loop_Cons using e Cons.IH by auto
qed

lemma caller_loop_tool_calls:
  "tool_calls (fst (caller_loop cs r)) = tool_calls r"
proof (induction cs arbitrary: r)
  case Nil
  show ?case by simp
next
  case (Cons c cs)
  show ?case
    unfolding caller_loop_Cons using Cons.IH caller_body_tool_calls by auto
qed

lemma caller_chain_step_err:
  "snd (caller_chain_step ev r) = snd (caller_chain_step ev r')"
  using caller_loop_err [of _ r r']
  by (simp add: caller_chain_step_def split: sum.splits bool.splits)

lemma caller_chain_step_tool_calls:
  "tool_calls (fst (caller_chain_step ev r)) = tool_calls r"
  by (simp add: caller_chain_step_def caller_loop_tool_calls split: sum.splits bool.splits)

lemma record_tool_call_err:
  "snd (record_tool_call ev tn ps r) = snd (record_tool_call ev tn ps r')"
  by (simp add: record_tool_call_def Let_def split: sum.splits prod.splits option.splits)

lemma record_tool_call_tool_calls:
  "tool_calls (fst (record_tool_call ev tn ps r)) =
     tool_calls r @ tool_calls (fst (record_tool_call ev tn ps empty_report))"
  by (simp add: record_tool_call_def Let_def empty_report_def
      split: sum.splits prod.splits option.splits)

lemma tool_step_err:
  "snd (tool_step ev r) = snd (tool_step ev r')"
  using record_tool_call_err [of ev _ _ r r']
  by (simp add: tool_step_def split: sum.splits option.splits prod.splits)

lemma tool_step_tool_calls:
  "tool_calls (fst (tool_step ev r)) = tool_calls r @ tool_calls (fst (tool_step ev empty_report))"
  using record_tool_call_tool_calls [of ev _ _ r]
  by (simp add: tool_step_def split: sum.splits option.splits prod.splits)
    (simp add: empty_report_def)

lemma process_event_alt:
  "process_event rp ev r =
     (if snd (identity_step rp ev r) \<noteq> None then identity_step rp ev r
      else if snd (caller_chain_step ev (fst (identity_step rp ev r))) \<noteq> None
      then caller_chain_step ev (fst (identity_step rp ev r))
      else tool_step ev (fst (caller_chain_step ev (fst (identity_step rp ev r)))))"
  by (simp add: process_event_def split: prod.splits option.splits)

lemma process_event_err:
  "snd (process_event rp ev r) = snd (process_event rp ev r')"
  unfolding process_event_alt
  using identity_step_err [of rp ev r r']
    caller_chain_step_err [of ev "fst (identity_step rp ev r)" "fst (identity_step rp ev r')"]
    tool_step_err [of ev "fst (caller_chain_step ev (fst (identity_step rp ev r)))"
       "fst (caller_chain_step ev (fst (identity_step rp ev r')))"]
  by auto

lemma process_event_tool_calls:
  "tool_calls (fst (process_event rp ev r)) =
     tool_calls r @ tool_calls (fst (process_event rp ev empty_report))"
proof -
  have t0: "tool_calls empty_report = []" by (simp add: empty_report_def)
  note i = identity_step_err [of rp ev r empty_report]
  note c = caller_chain_step_err [of ev "fst (identity_step rp ev r)" "fst (identity_step rp ev empty_report)"]
  show ?thesis
    unfolding process_event_alt
    using i c t0
      tool_step_tool_calls [of ev "fst (caller_chain_step ev (fst (identity_step rp ev r)))"]
      tool_step_tool_calls [of ev "fst (caller_chain_step ev (fst (identity_step rp ev empty_report)))"]
    by (auto simp: identity_step_tool_calls caller_chain_step_tool_calls)
qed

lemma keeps_refl: "keeps r r"
  by (simp add: keeps_def same_identity_def)

lemma keeps_trans: "keeps r r' \<Longrightarrow> keeps r' r'' \<Longrightarrow> keeps r r''"
  unfolding keeps_def same_identity_def by (metis (no_types, lifting))

lemma grows_keeps: "grows r r' \<Longrightarrow> keeps r r'"
  unfolding grows_def keeps_def same_identity_def by auto

lemma grows_sublists_ok: "grows r r' \<Longrightarrow> sublists_ok r \<Longrightarrow> sublists_ok r'"
  unfolding grows_def sublists_ok_def by (auto split: if_splits)

lemma grows_refl: "grows r r"
  by (simp add: grows_def)

lemma grows_add:
  "agents r k = None \<Longrightarrow> agent_tool_calls a = [] \<Longrightarrow> grows r (r\<lparr>agents := (agents r)(k \<mapsto> a)\<rparr>)"
  unfolding grows_def by blast

lemma identity_step_grows: "grows r (fst (identity_step rp ev r))"
  unfolding identity_step_def
  by (cases "py_contains ''agentId'' ev")
     (auto simp: grows_refl grows_add split: sum.splits bool.splits)

lemma caller_body_grows: "grows r (fst (caller_body c r))"
  unfolding caller_body_def Let_def
  by (cases "py_contains ''agentAliasArn'' c";
      cases "py_bind (py_getitem c ''agentAliasArn'') py_split")
     (auto simp: grows_refl grows_add split: bool.splits)

lemma caller_loop_keeps: "keeps r (fst (caller_loop cs r))"
proof (induction cs arbitrary: r)
  case Nil
  show ?case by (simp add: keeps_refl)
next
  case (Cons c cs)
  have "keeps r (fst (caller_body c r))" by (rule grows_keeps [OF caller_body_grows])
  with Cons.IH [of "fst (caller_body c r)"] show ?case
    unfolding caller_loop_Cons by (auto intro: keeps_trans)
qed

lemma caller_loop_sublists_ok: "sublists_ok r \<Longrightarrow> sublists_ok (fst (caller_loop cs r))"
proof (induction cs arbitrary: r)
  case Nil
  then show ?case by simp
next
  case (Cons c cs)
  have "sublists_ok (fst (caller_body c r))"
    by (rule grows_sublists_ok [OF caller_body_grows Cons.prems])
  with Cons.IH [of "fst (caller_body c r)"] show ?case
    unfolding caller_loop_Cons by auto
qed

lemma caller_chain_step_keeps: "keeps r (fst (caller_chain_step ev r))"
  unfolding caller_chain_step_def
  by (cases "py_contains ''callerChain'' ev";
      cases "py_bind (py_getitem ev ''callerChain'') py_iter")
     (auto simp: keeps_refl caller_loop_keeps split: bool.splits)

lemma caller_chain_step_sublists_ok:
  "sublists_ok r \<Longrightarrow> sublists_ok (fst (caller_chain_step ev r))"
  unfolding caller_chain_step_def
  by (cases "py_contains ''callerChain'' ev";
      cases "py_bind (py_getitem ev ''callerChain'') py_iter")
     (auto simp: caller_loop_sublists_ok split: bool.splits)

lemma attributed_snoc:
  "attributed k (tcs @ [tc]) =
     (if hash_key (tc_agent_id tc) = Inr k then attributed k tcs @ [entry_of tc]
      else attributed k tcs)"
  by (simp add: attributed_def)

lemma record_tool_call_keeps: "keeps r (fst (record_tool_call ev tn ps r))"
  unfolding record_tool_call_def Let_def
  apply (cases "py_bind (py_get ev ''agentId'' (JStr ''unknown''))
            (\<lambda>aid. py_bind (py_get ev ''timestamp'' (JStr [])) (\<lambda>ts. Inr (aid, ts)))")
   apply (simp add: keeps_refl)
  apply (auto simp: keeps_def same_identity_def split: sum.splits option.splits)
  done

lemma subseq_snoc_both: "subseq xs ys \<Longrightarrow> subseq (xs @ [x]) (ys @ [x])"
  by (simp add: list_emb_append_mono)

lemma subseq_snoc_right: "subseq xs ys \<Longrightarrow> subseq xs (ys @ [x])"
  by (rule subseq_rev_drop_many)

lemma record_tool_call_sublists_ok:
  assumes "sublists_ok r"
  shows "sublists_ok (fst (record_tool_call ev tn ps r))"
proof (cases "py_bind (py_get ev ''agentId'' (JStr ''unknown''))
            (\<lambda>aid. py_bind (py_get ev ''timestamp'' (JStr [])) (\<lambda>ts. Inr (aid, ts)))")
  case (Inl e)
  with assms show ?thesis by (simp add: record_tool_call_def)
next
  case (Inr p)
  obtain aid ts where p: "p = (aid, ts)" by (cases p)
  define tc where "tc = \<lparr>tc_agent_id = aid, tc_tool_name = tn, tc_parameters = ps, tc_timestamp = ts\<rparr>"
  have e: "entry_of tc = \<lparr>at_tool_name = tn, at_parameters = ps, at_timestamp = ts\<rparr>"
    by (simp add: entry_of_def tc_def)
  have aid: "tc_agent_id tc = aid" by (simp add: tc_def)
  from assms have ok: "\<And>k a. agents r k = Some a \<Longrightarrow> subseq (agent_tool_calls a) (attributed k (tool_calls r))"
    by (simp add: sublists_ok_def)
  show ?thesis
    unfolding sublists_ok_def record_tool_call_def Let_def Inr p
    using ok
    by (auto simp: attributed_snoc e [unfolded tc_def] subseq_snoc_both subseq_snoc_right
        split: sum.splits option.splits)
qed

lemma tool_step_keeps: "keeps r (fst (tool_step ev r))"
  unfolding tool_step_def
  by (cases "find_invocation ev") (auto simp: keeps_refl record_tool_call_keeps split: option.splits)

lemma tool_step_sublists_ok: "sublists_ok r \<Longrightarrow> sublists_ok (fst (tool_step ev r))"
  unfolding tool_step_def
  by (cases "find_invocation ev") (auto simp: record_tool_call_sublists_ok split: option.splits)

lemma process_event_keeps: "keeps r (fst (process_event rp ev r))"
proof -
  have 1: "keeps r (fst (identity_step rp ev r))"
    by (rule grows_keeps [OF identity_step_grows])
  have 2: "keeps r (fst (caller_chain_step ev (fst (identity_step rp ev r))))"
    by (rule keeps_trans [OF 1 caller_chain_step_keeps])
  have 3: "keeps r (fst (tool_step ev (fst (caller_chain_step ev (fst (identity_step rp ev r))))))"
    by (rule keeps_trans [OF 2 tool_step_keeps])
  show ?thesis unfolding process_event_alt using 1 2 3 by simp
qed

lemma process_event_sublists_ok:
  assumes "sublists_ok r"
  shows "sublists_ok (fst (process_event rp ev r))"
proof -
  have 1: "sublists_ok (fst (identity_step rp ev r))"
    by (rule grows_sublists_ok [OF identity_step_grows assms])
  have 2: "sublists_ok (fst (caller_chain_step ev (fst (identity_step rp ev r))))"
    by (rule caller_chain_step_sublists_ok [OF 1])
  have 3: "sublists_ok (fst (tool_step ev (fst (caller_chain_step ev (fst (identity_step rp ev r))))))"
    by (rule tool_step_sublists_ok [OF 2])
  show ?thesis unfolding process_event_alt using 1 2 3 by simp
qed

lemma run_events_append: "run_events rp r (xs @ ys) = run_events rp (run_events rp r xs) ys"
  by (simp add: run_events_def)

lemma run_events_Cons: "run_events rp r (ev # evs) = run_events rp (fst (process_event rp ev r)) evs"
  by (simp add: run_events_def)

lemma run_events_Nil: "run_events rp r [] = r"
  by (simp add: run_events_def)

lemma run_events_tool_calls:
  "tool_calls (run_events rp r evs) = tool_calls r @ concat (map (event_tool_calls rp) evs)"
proof (induction evs arbitrary: r)
  case Nil
  show ?case by (simp add: run_events_Nil)
next
  case (Cons ev evs)
  show ?case
    unfolding run_events_Cons Cons.IH
    using process_event_tool_calls [of rp ev r, folded event_tool_calls_def]
    by simp
qed

lemma run_events_keeps: "keeps r (run_events rp r evs)"
proof (induction evs arbitrary: r)
  case Nil
  show ?case by (simp add: run_events_Nil keeps_refl)
next
  case (Cons ev evs)
  show ?case
    unfolding run_events_Cons
    by (rule keeps_trans [OF process_event_keeps Cons.IH])
qed

lemma run_events_sublists_ok: "sublists_ok r \<Longrightarrow> sublists_ok (run_events rp r evs)"
proof (induction evs arbitrary: r)
  case Nil
  then show ?case by (simp add: run_events_Nil)
next
  case (Cons ev evs)
  show ?case
    unfolding run_events_Cons
    by (rule Cons.IH [OF process_event_sublists_ok [OF Cons.prems]])
qed

lemma sublists_ok_empty: "sublists_ok empty_report"
  by (simp add: sublists_ok_def empty_report_def)

lemma tool_calls_empty_report: "tool_calls empty_report = []"
  by (simp add: empty_report_def)

lemma record_tool_call_length:
  "length (tool_calls (fst (record_tool_call ev tn ps empty_report))) \<le> Suc 0"
  unfolding record_tool_call_def Let_def
  by (cases "py_bind (py_get ev ''agentId'' (JStr ''unknown''))
            (\<lambda>aid. py_bind (py_get ev ''timestamp'' (JStr [])) (\<lambda>ts. Inr (aid, ts)))")
     (auto simp: empty_report_def split: sum.splits option.splits)

lemma tool_step_length: "length (tool_calls (fst (tool_step ev empty_report))) \<le> Suc 0"
  unfolding tool_step_def
  by (cases "find_invocation ev")
     (auto simp: tool_calls_empty_report record_tool_call_length split: option.splits)

lemma event_tool_calls_length: "length (event_tool_calls rp ev) \<le> 1"
proof -
  have "tool_calls (fst (process_event rp ev empty_report)) = [] \<or>
        tool_calls (fst (process_event rp ev empty_report)) = tool_calls (fst (tool_step ev empty_report))"
    unfolding process_event_alt
    using tool_step_tool_calls [of ev "fst (caller_chain_step ev (fst (identity_step rp ev empty_report)))"]
    by (simp add: identity_step_tool_calls caller_chain_step_tool_calls tool_calls_empty_report)
  then show ?thesis
    unfolding event_tool_calls_def using tool_step_length [of ev] by auto
qed

lemma extract_step_handled:
  assumes "handled rp ev"
  shows "extract_step rp st ev =
           Inr (fst (process_event rp ev (fst st)), snd st @ event_log rp ev)"
proof (cases "process_event rp ev (fst st)")
  case (Pair r' err)
  from process_event_err [of rp ev "fst st" empty_report] Pair
  have err: "snd (process_event rp ev empty_report) = err" by simp
  show ?thesis
  proof (cases err)
    case None
    with Pair err show ?thesis by (simp add: extract_step_def event_log_def)
  next
    case (Some e)
    with assms err have "str_error rp 0 ev = None" by (simp add: handled_def)
    with Pair err Some show ?thesis by (simp add: extract_step_def event_log_def)
  qed
qed

lemma extract_step_unhandled:
  assumes "\<not> handled rp ev"
  shows "\<exists>e. str_error rp 0 ev = Some e \<and> extract_step rp st ev = Inl e"
proof -
  from assms obtain e e' where 1: "snd (process_event rp ev empty_report) = Some e"
    and 2: "str_error rp 0 ev = Some e'"
    by (auto simp: handled_def)
  from 1 process_event_err [of rp ev "fst st" empty_report]
  have "snd (process_event rp ev (fst st)) = Some e" by simp
  with 2 show ?thesis
    by (cases "process_event rp ev (fst st)") (simp add: extract_step_def)
qed

lemma extract_loop_handled:
  "list_all (handled rp) evs \<Longrightarrow>
     extract_loop rp evs st =
       Inr (run_events rp (fst st) evs, snd st @ concat (map (event_log rp) evs))"
proof (induction evs arbitrary: st)
  case Nil
  show ?case by (simp add: run_events_Nil)
next
  case (Cons ev evs)
  from Cons.prems have h: "handled rp ev" and rest: "list_all (handled rp) evs" by simp_all
  show ?case
    by (simp add: extract_step_handled [OF h] Cons.IH [OF rest] run_events_Cons)
qed

lemma extract_loop_Inr:
  "extract_loop rp evs st = Inr st' \<Longrightarrow> list_all (handled rp) evs"
proof (induction evs arbitrary: st)
  case Nil
  show ?case by simp
next
  case (Cons ev evs)
  show ?case
  proof (cases "handled rp ev")
    case True
    with Cons.prems have "extract_loop rp evs
        (fst (process_event rp ev (fst st)), snd st @ event_log rp ev) = Inr st'"
      by (simp add: extract_step_handled)
    from Cons.IH [OF this] True show ?thesis by simp
  next
    case False
    from extract_step_unhandled [OF False, of st] Cons.prems show ?thesis by auto
  qed
qed

lemma extract_from_trace_handled:
  "list_all (handled rp) evs \<Longrightarrow>
     extract_from_trace rp (JList evs) =
       Inr (run_events rp empty_report evs, concat (map (event_log rp) evs))"
  by (simp add: extract_from_trace_def py_bind_def extract_loop_handled)

lemma extract_from_trace_Inr:
  assumes "extract_from_trace rp (JList evs) = Inr (rep, lg)"
  shows "list_all (handled rp) evs" and "rep = run_events rp empty_report evs"
    and "lg = concat (map (event_log rp) evs)"
proof -
  from assms have l: "extract_loop rp evs (empty_report, []) = Inr (rep, lg)"
    by (simp add: extract_from_trace_def py_bind_def)
  from extract_loop_Inr [OF l] show h: "list_all (handled rp) evs" .
  from extract_loop_handled [OF h, of "(empty_report, [])"] l
  show "rep = run_events rp empty_report evs" and "lg = concat (map (event_log rp) evs)"
    by simp_all
qed

lemma ten_le_power: "0 < n \<Longrightarrow> (10::int) \<le> 10 ^ n"
  by (cases n) (simp_all add: mult_le_cancel_left1)

lemma small_int_printable: "\<bar>i\<bar> < 10 \<Longrightarrow> \<not> int_too_long rp i"
  using ten_le_power [of "max_str_digits rp"] by (auto simp: int_too_long_def)

lemma too_long_power: "max_str_digits rp = n \<Longrightarrow> n \<noteq> 0 \<Longrightarrow> int_too_long rp (10 ^ n)"
  by (simp add: int_too_long_def)

lemma max_depth_repr_stub: "max_depth repr_stub = 1000"
  by (simp add: repr_stub_def)

lemma str_atom_depth: "str_error rp n (Atom a) = str_error rp 0 (Atom a)"
  by simp

lemma str_errors_kv_member:
  "(k, v) \<in> set kvs \<Longrightarrow> str_error rp n v \<noteq> None \<Longrightarrow> str_errors_kv rp n kvs \<noteq> None"
  by (induction kvs) (auto split: option.splits)

lemma str_error_dict_member:
  assumes "map_of d k = Some v" and "str_error rp 1 v \<noteq> None"
  shows "str_error rp 0 (JDict d) \<noteq> None"
  using str_errors_kv_member [OF map_of_SomeD [OF assms(1)], of rp 1] assms(2)
  by simp

lemmas eval_defs = run_events_def process_event_def identity_step_def caller_chain_step_def
  caller_body_def tool_step_def find_invocation_def when_in_def tool_of_action_group_def
  record_tool_call_def py_bind_def empty_report_def Let_def py_format_def
  max_depth_repr_stub small_int_printable identity_event_def
  action_group_event_def invocation_binding_def event_tool_calls_def event_log_def attributed_def entry_of_def


lemma py_get_field: "py_get (JDict d) k dflt = Inr (field d k dflt)"
  by (simp add: field_def)




lemma identity_step_new:
  assumes "map_of d ''agentId'' = Some (Atom a)" and "agents r (norm_key a) = None"
      and "str_error rp 0 (Atom a) = None"
  shows "fst (identity_step rp (JDict d) r) =
           r\<lparr>agents := (agents r)(norm_key a \<mapsto>
              \<lparr>agent_id = Atom a, agent_alias_id = field d ''agentAliasId'' (JStr []),
               agent_name = field d ''collaboratorName'' (JStr (''Agent-'' @ str_atom a)),
               agent_tool_calls = []\<rparr>)\<rparr>"
    and "snd (identity_step rp (JDict d) r) = None"
  using assms
  by (simp_all add: identity_step_def py_bind_def py_format_def field_def split: option.split)


lemma identity_step_unprintable:
  assumes "map_of d ''agentId'' = Some (Atom a)" and "str_error rp 0 (Atom a) = Some e"
  shows "identity_step rp (JDict d) r = (r, Some e)"
  using assms by (simp add: identity_step_def py_bind_def py_format_def)

lemma handled_identity_printable:
  assumes h: "handled rp (JDict d)" and aid: "map_of d ''agentId'' = Some (Atom a)"
  shows "str_error rp 0 (Atom a) = None"
proof (cases "str_error rp 0 (Atom a)")
  case None
  then show ?thesis .
next
  case (Some e)
  from identity_step_unprintable [OF aid Some]
  have "snd (process_event rp (JDict d) empty_report) = Some e"
    by (simp add: process_event_def)
  with h have p: "str_error rp 0 (JDict d) = None" by (simp add: handled_def)
  from Some have "str_error rp 1 (Atom a) \<noteq> None" by simp
  from str_error_dict_member [OF aid this] p show ?thesis by simp
qed

lemma identity_step_absent:
  assumes "map_of d ''agentId'' = None"
  shows "identity_step rp (JDict d) r = (r, None)"
  using assms by (simp add: identity_step_def)

lemma process_event_keeps_identity:
  "keeps (fst (identity_step rp ev r)) (fst (process_event rp ev r))"
proof -
  let ?r1 = "fst (identity_step rp ev r)"
  have 2: "keeps ?r1 (fst (caller_chain_step ev ?r1))" by (rule caller_chain_step_keeps)
  have 3: "keeps ?r1 (fst (tool_step ev (fst (caller_chain_step ev ?r1))))"
    by (rule keeps_trans [OF 2 tool_step_keeps])
  show ?thesis unfolding process_event_alt using 2 3 by (simp add: keeps_refl)
qed






















lemma printable_handled: "str_error rp 0 ev = None \<Longrightarrow> handled rp ev"
  by (simp add: handled_def)

lemmas print_defs = printable_handled max_depth_repr_stub small_int_printable identity_event_def
  action_group_event_def invocation_binding_def

lemma long_int_too_long: "int_too_long repr_stub long_int"
  unfolding long_int_def by (rule too_long_power) (simp_all add: repr_stub_def)

lemma nested_too_deep: "max_depth rp \<le> n + k \<Longrightarrow> str_error rp n (nested k) = Some RecursionError"
  by (induction k arbitrary: n) auto





lemma split_slash_length:
  "length (split_slash s) = Suc (length (filter (\<lambda>ch. ch = CHR ''/'') s))"
  by (induction s) (auto split: list.splits)

lemma caller_loop_append:
  "caller_loop (xs @ ys) r =
     (if snd (caller_loop xs r) = None then caller_loop ys (fst (caller_loop xs r))
      else caller_loop xs r)"
proof (induction xs arbitrary: r)
  case Nil
  show ?case by simp
next
  case (Cons x xs)
  show ?case
    using Cons.IH [of "fst (caller_body x r)"]
    by (auto simp add: caller_loop_Cons simp del: caller_loop.simps(2))
qed

lemma caller_body_arn:
  assumes "map_of c ''agentAliasArn'' = Some (JStr arn)"
  shows "caller_body (JDict c) r =
     (let arn_parts = split_slash arn; k = arn_parts ! (length arn_parts - 2) in
      if 2 \<le> length arn_parts \<and> agents r (AStr k) = None
      then (r\<lparr>agents := (agents r)(AStr k \<mapsto>
                \<lparr>agent_id = JStr k,
                 agent_alias_id = JStr (if 2 < length arn_parts then last arn_parts else []),
                 agent_name = JStr (''Agent-'' @ k), agent_tool_calls = []\<rparr>)\<rparr>, None)
      else (r, None))"
  using assms by (simp add: caller_body_def py_bind_def Let_def)

lemma process_event_keeps_chain:
  assumes "snd (identity_step rp ev r) = None"
  shows "keeps (fst (caller_chain_step ev (fst (identity_step rp ev r))))
               (fst (process_event rp ev r))"
  unfolding process_event_alt using assms
  by (simp add: keeps_refl tool_step_keeps)






















lemma prepare_sample_nonempty:
  "prepare_sample rp q md = Inr (topics, messages) \<Longrightarrow> topics \<noteq> []"
  unfolding prepare_sample_def py_bind_def
  by (auto split: sum.splits if_splits)

section \<open>The properties of the specification\<close>

subsection \<open>The extractor: helpers/tool\_usage\_extractor.py\<close>

text \<open>
  C1. The handler of \<open>extract_from_trace\<close> (lines 101 to 103) prints the event whose
  processing raised, and nothing guards that print. On a list with one event whose caller
  chain is the number 5, so that its processing raises a \<open>TypeError\<close>, and which holds
  an integer of 4301 digits, the \<open>ValueError\<close> of the print leaves the function; when the
  event holds a list nested 1000 deep instead, a \<open>RecursionError\<close> does. In both cases
  \<open>extract_from_trace\<close> raises and returns no report.
\<close>

theorem extract_from_trace_handler_raises:
  "extract_from_trace repr_stub (JList [long_int_event]) =
     Inl (ValueError ''Exceeds the limit for integer string conversion'') \<and>
   extract_from_trace repr_stub (JList [deep_event]) = Inl RecursionError"
proof -
  have b1: "snd (process_event repr_stub long_int_event empty_report) = Some TypeError"
    by (simp add: long_int_event_def process_event_def identity_step_def caller_chain_step_def
        py_bind_def)
  have p1: "str_error repr_stub 0 long_int_event =
      Some (ValueError ''Exceeds the limit for integer string conversion'')"
    by (simp add: long_int_event_def max_depth_repr_stub small_int_printable long_int_too_long)
  have b2: "snd (process_event repr_stub deep_event empty_report) = Some TypeError"
    by (simp add: deep_event_def process_event_def identity_step_def caller_chain_step_def
        py_bind_def)
  have "str_error repr_stub 1 (nested 1000) = Some RecursionError"
    by (rule nested_too_deep) (simp add: max_depth_repr_stub)
  then have p2: "str_error repr_stub 0 deep_event = Some RecursionError"
    by (simp add: deep_event_def max_depth_repr_stub small_int_printable)
  have n1: "\<not> handled repr_stub long_int_event" by (simp add: handled_def b1 p1)
  have n2: "\<not> handled repr_stub deep_event" by (simp add: handled_def b2 p2)
  from extract_step_unhandled [OF n1, of "(empty_report, [])"]
  have s1: "extract_step repr_stub (empty_report, []) long_int_event =
      Inl (ValueError ''Exceeds the limit for integer string conversion'')"
    by (simp add: p1)
  from extract_step_unhandled [OF n2, of "(empty_report, [])"]
  have s2: "extract_step repr_stub (empty_report, []) deep_event = Inl RecursionError"
    by (simp add: p2)
  from s1 s2 show ?thesis
    by (simp add: extract_from_trace_def py_bind_def)
qed




text \<open>
  C3. The flat list of the report is the concatenation, in the order of the input, of
  what each event contributes by itself (nothing or one record); and the list of each
  agent record is a subsequence of the flat list's calls attributed to that agent, in
  the same order.
\<close>

theorem tool_calls_keep_event_order:
  assumes "extract_from_trace rp (JList evs) = Inr (rep, lg)"
  shows "tool_calls rep = concat (map (event_tool_calls rp) evs) \<and>
         (\<forall>ev. length (event_tool_calls rp ev) \<le> 1) \<and>
         (\<forall>k a. agents rep k = Some a \<longrightarrow>
            subseq (agent_tool_calls a) (attributed k (tool_calls rep)))"
proof -
  from assms have rep: "rep = run_events rp empty_report evs"
    by (rule extract_from_trace_Inr(2))
  have 1: "tool_calls rep = concat (map (event_tool_calls rp) evs)"
    unfolding rep by (simp add: run_events_tool_calls tool_calls_empty_report)
  have "sublists_ok rep"
    unfolding rep by (rule run_events_sublists_ok [OF sublists_ok_empty])
  then have 2: "\<forall>k a. agents rep k = Some a \<longrightarrow>
            subseq (agent_tool_calls a) (attributed k (tool_calls rep))"
    by (simp add: sublists_ok_def)
  from 1 2 event_tool_calls_length show ?thesis by blast
qed

theorem tool_calls_keep_event_order_witness:
  "tool_calls (run_events repr_stub empty_report example_trace) =
     concat (map (event_tool_calls repr_stub) example_trace) \<and>
   agents (run_events repr_stub empty_report example_trace) (AStr ''A'') =
     Some \<lparr>agent_id = JStr ''A'', agent_alias_id = JStr ''v1'', agent_name = JStr ''Planner'',
           agent_tool_calls =
             [\<lparr>at_tool_name = JStr ''search'', at_parameters = JDict [], at_timestamp = JStr []\<rparr>,
              \<lparr>at_tool_name = JStr ''book'', at_parameters = JDict [], at_timestamp = JStr []\<rparr>]\<rparr> \<and>
   subseq [\<lparr>at_tool_name = JStr ''search'', at_parameters = JDict [], at_timestamp = JStr []\<rparr>,
           \<lparr>at_tool_name = JStr ''book'', at_parameters = JDict [], at_timestamp = JStr []\<rparr>]
     (attributed (AStr ''A'') (tool_calls (run_events repr_stub empty_report example_trace)))"
proof -
  let ?rep = "run_events repr_stub empty_report example_trace"
  have h: "extract_from_trace repr_stub (JList example_trace) =
             Inr (?rep, concat (map (event_log repr_stub) example_trace))"
    by (rule extract_from_trace_handled) (simp add: example_trace_def print_defs)
  have a: "agents ?rep (AStr ''A'') =
     Some \<lparr>agent_id = JStr ''A'', agent_alias_id = JStr ''v1'', agent_name = JStr ''Planner'',
           agent_tool_calls =
             [\<lparr>at_tool_name = JStr ''search'', at_parameters = JDict [], at_timestamp = JStr []\<rparr>,
              \<lparr>at_tool_name = JStr ''book'', at_parameters = JDict [], at_timestamp = JStr []\<rparr>]\<rparr>"
    by (simp add: example_trace_def eval_defs)
  note t = tool_calls_keep_event_order [OF h]
  from t have 1: "tool_calls ?rep = concat (map (event_tool_calls repr_stub) example_trace)"
    by (rule conjunct1)
  note t [THEN conjunct2, THEN conjunct2, rule_format, OF a]
  then have 2: "subseq
      [\<lparr>at_tool_name = JStr ''search'', at_parameters = JDict [], at_timestamp = JStr []\<rparr>,
       \<lparr>at_tool_name = JStr ''book'', at_parameters = JDict [], at_timestamp = JStr []\<rparr>]
      (attributed (AStr ''A'') (tool_calls ?rep))"
    by simp
  from 1 a 2 show ?thesis by (intro conjI)
qed

text \<open>
  C4. The first event that makes an agent id known fixes its record: when the id has no
  record before an event carrying it as \<open>agentId\<close>, the final report has for that id the
  alias and the name of that event, whatever the later events say; and no record that
  exists at some point of the trace has its id, alias or name changed afterwards.
\<close>

theorem first_seen_identity_wins:
  assumes pre: "extract_from_trace rp (JList pre) = Inr (rep0, lg0)"
      and all: "extract_from_trace rp (JList (pre @ JDict d # post)) = Inr (rep, lg)"
      and aid: "map_of d ''agentId'' = Some (Atom a)"
  shows "(agents rep0 (norm_key a) = None \<longrightarrow>
            (\<exists>rec. agents rep (norm_key a) = Some rec \<and> agent_id rec = Atom a \<and>
               agent_alias_id rec = field d ''agentAliasId'' (JStr []) \<and>
               agent_name rec = field d ''collaboratorName'' (JStr (''Agent-'' @ str_atom a)))) \<and>
         (\<forall>k rec0. agents rep0 k = Some rec0 \<longrightarrow>
            (\<exists>rec. agents rep k = Some rec \<and> agent_id rec = agent_id rec0 \<and>
               agent_alias_id rec = agent_alias_id rec0 \<and> agent_name rec = agent_name rec0))"
proof -
  from pre have rep0: "rep0 = run_events rp empty_report pre"
    by (rule extract_from_trace_Inr(2))
  let ?r1 = "fst (identity_step rp (JDict d) rep0)"
  let ?r2 = "fst (process_event rp (JDict d) rep0)"
  from extract_from_trace_Inr(2) [OF all] have rep: "rep = run_events rp ?r2 post"
    by (simp add: run_events_append run_events_Cons rep0)
  from extract_from_trace_Inr(1) [OF all] have "handled rp (JDict d)" by simp
  note pr = handled_identity_printable [OF this aid]
  have k12: "keeps ?r1 ?r2" by (rule process_event_keeps_identity)
  have k2: "keeps ?r2 rep" unfolding rep by (rule run_events_keeps)
  have k1: "keeps ?r1 rep" by (rule keeps_trans [OF k12 k2])
  have k0: "keeps rep0 rep" by (rule keeps_trans [OF process_event_keeps k2])
  have A: "agents rep0 (norm_key a) = None \<longrightarrow>
            (\<exists>rec. agents rep (norm_key a) = Some rec \<and> agent_id rec = Atom a \<and>
               agent_alias_id rec = field d ''agentAliasId'' (JStr []) \<and>
               agent_name rec = field d ''collaboratorName'' (JStr (''Agent-'' @ str_atom a)))"
  proof
    assume n: "agents rep0 (norm_key a) = None"
    have "agents ?r1 (norm_key a) =
       Some \<lparr>agent_id = Atom a, agent_alias_id = field d ''agentAliasId'' (JStr []),
               agent_name = field d ''collaboratorName'' (JStr (''Agent-'' @ str_atom a)),
               agent_tool_calls = []\<rparr>"
      by (simp add: identity_step_new(1) [OF aid n pr])
    with k1 show "\<exists>rec. agents rep (norm_key a) = Some rec \<and> agent_id rec = Atom a \<and>
               agent_alias_id rec = field d ''agentAliasId'' (JStr []) \<and>
               agent_name rec = field d ''collaboratorName'' (JStr (''Agent-'' @ str_atom a))"
      unfolding keeps_def same_identity_def by fastforce
  qed
  have B: "\<forall>k rec0. agents rep0 k = Some rec0 \<longrightarrow>
            (\<exists>rec. agents rep k = Some rec \<and> agent_id rec = agent_id rec0 \<and>
               agent_alias_id rec = agent_alias_id rec0 \<and> agent_name rec = agent_name rec0)"
    using k0 unfolding keeps_def same_identity_def by blast
  from A B show ?thesis by (rule conjI)
qed

theorem first_seen_identity_wins_witness:
  "agents (run_events repr_stub empty_report [identity_event ''B'' ''b1'' ''Billing''])
      (norm_key (AStr ''A'')) = None \<and>
   (\<exists>rec. agents (run_events repr_stub empty_report
              ([identity_event ''B'' ''b1'' ''Billing''] @
               JDict [(''agentId'', JStr ''A''), (''collaboratorName'', JStr ''Planner'')] #
               [identity_event ''A'' ''v2'' ''Other'', identity_event ''B'' ''b2'' ''Renamed'']))
            (norm_key (AStr ''A'')) = Some rec \<and>
          agent_id rec = JStr ''A'' \<and> agent_alias_id rec = JStr [] \<and>
          agent_name rec = JStr ''Planner'') \<and>
   (\<exists>rec. agents (run_events repr_stub empty_report
              ([identity_event ''B'' ''b1'' ''Billing''] @
               JDict [(''agentId'', JStr ''A''), (''collaboratorName'', JStr ''Planner'')] #
               [identity_event ''A'' ''v2'' ''Other'', identity_event ''B'' ''b2'' ''Renamed'']))
            (AStr ''B'') = Some rec \<and>
          agent_id rec = JStr ''B'' \<and> agent_alias_id rec = JStr ''b1'' \<and>
          agent_name rec = JStr ''Billing'')"
proof -
  let ?pre = "[identity_event ''B'' ''b1'' ''Billing'']"
  let ?d = "[(''agentId'', JStr ''A''), (''collaboratorName'', JStr ''Planner'')]"
  let ?post = "[identity_event ''A'' ''v2'' ''Other'', identity_event ''B'' ''b2'' ''Renamed'']"
  let ?recB = "\<lparr>agent_id = JStr ''B'', agent_alias_id = JStr ''b1'', agent_name = JStr ''Billing'',
                agent_tool_calls = []\<rparr>"
  have h1: "extract_from_trace repr_stub (JList ?pre) =
     Inr (run_events repr_stub empty_report ?pre, concat (map (event_log repr_stub) ?pre))"
    by (rule extract_from_trace_handled) (simp add: print_defs)
  have h2: "extract_from_trace repr_stub (JList (?pre @ JDict ?d # ?post)) =
     Inr (run_events repr_stub empty_report (?pre @ JDict ?d # ?post),
          concat (map (event_log repr_stub) (?pre @ JDict ?d # ?post)))"
    by (rule extract_from_trace_handled) (simp add: print_defs)
  have h3: "map_of ?d ''agentId'' = Some (Atom (AStr ''A''))" by simp
  have n: "agents (run_events repr_stub empty_report ?pre) (norm_key (AStr ''A'')) = None"
    by (simp add: eval_defs)
  have b: "agents (run_events repr_stub empty_report ?pre) (AStr ''B'') = Some ?recB"
    by (simp add: eval_defs)
  note t = first_seen_identity_wins [OF h1 h2 h3]
  from t [THEN conjunct1, rule_format, OF n]
  have 1: "\<exists>rec. agents (run_events repr_stub empty_report (?pre @ JDict ?d # ?post))
            (norm_key (AStr ''A'')) = Some rec \<and>
          agent_id rec = JStr ''A'' \<and> agent_alias_id rec = JStr [] \<and>
          agent_name rec = JStr ''Planner''"
    by (simp add: field_def)
  from t [THEN conjunct2, rule_format, OF b]
  have 2: "\<exists>rec. agents (run_events repr_stub empty_report (?pre @ JDict ?d # ?post))
            (AStr ''B'') = Some rec \<and>
          agent_id rec = JStr ''B'' \<and> agent_alias_id rec = JStr ''b1'' \<and>
          agent_name rec = JStr ''Billing''"
    by simp
  from n 1 2 show ?thesis by (intro conjI)
qed




text \<open>
  C6, as the code has it. A caller chain entry with a string \<open>agentAliasArn\<close>, reached
  with the report \<open>r\<close> (the identity step of its event and the entries before it raised
  nothing). The ARN has one segment more than it has slashes. With two segments or more
  the final report has a record under the last segment but one: when \<open>r\<close> had none, the
  record made for it, whose alias is the last segment if there are three segments or more
  and the empty string otherwise, and whose name is \<open>Agent-\<close> followed by the id; when
  \<open>r\<close> had one, that record with its id, alias and name unchanged. With a single
  segment the entry changes nothing.
\<close>

theorem caller_chain_arn:
  assumes chain: "map_of d ''callerChain'' = Some (JList (cs1 @ JDict c # cs2))"
      and arn: "map_of c ''agentAliasArn'' = Some (JStr arn)"
      and pre: "extract_from_trace rp (JList pre) = Inr (rep0, lg0)"
      and ident: "identity_step rp (JDict d) rep0 = (r1, None)"
      and reach: "caller_loop cs1 r1 = (r, None)"
      and run: "extract_from_trace rp (JList (pre @ JDict d # post)) = Inr (rep, lg)"
      and parts: "parts = split_slash arn"
      and k: "k = parts ! (length parts - 2)"
  shows "length parts = Suc (length (filter (\<lambda>ch. ch = CHR ''/'') arn)) \<and>
         (2 \<le> length parts \<longrightarrow> agents r (AStr k) = None \<longrightarrow>
            (\<exists>rec. agents rep (AStr k) = Some rec \<and> agent_id rec = JStr k \<and>
               agent_alias_id rec = JStr (if 3 \<le> length parts then last parts else []) \<and>
               agent_name rec = JStr (''Agent-'' @ k))) \<and>
         (\<forall>rec0. 2 \<le> length parts \<longrightarrow> agents r (AStr k) = Some rec0 \<longrightarrow>
            (\<exists>rec. agents rep (AStr k) = Some rec \<and> agent_id rec = agent_id rec0 \<and>
               agent_alias_id rec = agent_alias_id rec0 \<and> agent_name rec = agent_name rec0)) \<and>
         (length parts < 2 \<longrightarrow> caller_body (JDict c) r = (r, None))"
proof -
  let ?rc = "fst (caller_body (JDict c) r)"
  let ?new = "\<lparr>agent_id = JStr k,
               agent_alias_id = JStr (if 2 < length parts then last parts else []),
               agent_name = JStr (''Agent-'' @ k), agent_tool_calls = []\<rparr>"
  note body = caller_body_arn [OF arn, of r, folded parts, unfolded Let_def, folded k]
  have ok: "snd (caller_body (JDict c) r) = None" by (simp add: body)
  from pre have rep0: "rep0 = run_events rp empty_report pre"
    by (rule extract_from_trace_Inr(2))
  from extract_from_trace_Inr(2) [OF run]
  have rep: "rep = run_events rp (fst (process_event rp (JDict d) rep0)) post"
    by (simp add: run_events_append run_events_Cons rep0)
  have chain_eq: "caller_chain_step (JDict d) r1 = caller_loop cs2 ?rc"
    using chain reach ok
    by (simp add: caller_chain_step_def py_bind_def caller_loop_append caller_loop_Cons
        del: caller_loop.simps(2))
  have k1: "keeps ?rc (fst (caller_chain_step (JDict d) r1))"
    unfolding chain_eq by (rule caller_loop_keeps)
  from ident have i: "snd (identity_step rp (JDict d) rep0) = None"
    and r1: "fst (identity_step rp (JDict d) rep0) = r1" by simp_all
  have k2: "keeps (fst (caller_chain_step (JDict d) r1)) (fst (process_event rp (JDict d) rep0))"
    using process_event_keeps_chain [OF i] by (simp add: r1)
  have k3: "keeps (fst (process_event rp (JDict d) rep0)) rep"
    unfolding rep by (rule run_events_keeps)
  have K: "keeps ?rc rep" by (rule keeps_trans [OF keeps_trans [OF k1 k2] k3])
  have A: "length parts = Suc (length (filter (\<lambda>ch. ch = CHR ''/'') arn))"
    unfolding parts by (rule split_slash_length)
  have three: "(3 \<le> length parts) = (2 < length parts)" by arith
  have B1: "2 \<le> length parts \<longrightarrow> agents r (AStr k) = None \<longrightarrow>
            (\<exists>rec. agents rep (AStr k) = Some rec \<and> agent_id rec = JStr k \<and>
               agent_alias_id rec = JStr (if 3 \<le> length parts then last parts else []) \<and>
               agent_name rec = JStr (''Agent-'' @ k))"
  proof (intro impI)
    assume two: "2 \<le> length parts" and None: "agents r (AStr k) = None"
    then have "agents ?rc (AStr k) = Some ?new" by (simp add: body)
    with K obtain rec where "agents rep (AStr k) = Some rec" "same_identity ?new rec"
      unfolding keeps_def by blast
    then show "\<exists>rec. agents rep (AStr k) = Some rec \<and> agent_id rec = JStr k \<and>
               agent_alias_id rec = JStr (if 3 \<le> length parts then last parts else []) \<and>
               agent_name rec = JStr (''Agent-'' @ k)"
      by (auto simp: same_identity_def three)
  qed
  have B2: "\<forall>rec0. 2 \<le> length parts \<longrightarrow> agents r (AStr k) = Some rec0 \<longrightarrow>
            (\<exists>rec. agents rep (AStr k) = Some rec \<and> agent_id rec = agent_id rec0 \<and>
               agent_alias_id rec = agent_alias_id rec0 \<and> agent_name rec = agent_name rec0)"
  proof (intro allI impI)
    fix rec0
    assume "2 \<le> length parts" and Some: "agents r (AStr k) = Some rec0"
    then have "agents ?rc (AStr k) = Some rec0" by (simp add: body)
    with K obtain rec where "agents rep (AStr k) = Some rec" "same_identity rec0 rec"
      unfolding keeps_def by blast
    then show "\<exists>rec. agents rep (AStr k) = Some rec \<and> agent_id rec = agent_id rec0 \<and>
               agent_alias_id rec = agent_alias_id rec0 \<and> agent_name rec = agent_name rec0"
      by (auto simp: same_identity_def)
  qed
  have C: "length parts < 2 \<longrightarrow> caller_body (JDict c) r = (r, None)"
    by (simp add: body)
  from A B1 B2 C show ?thesis by (intro conjI)
qed

theorem caller_chain_arn_counterexample:
  "at_path [''callerChain''] unreached_caller_event =
     Some (JList [JInt 5, JDict [(''agentAliasArn'', JStr ''a/b/c'')]]) \<and>
   split_slash ''a/b/c'' = [''a'', ''b'', ''c''] \<and>
   extract_from_trace repr_stub (JList [unreached_caller_event]) =
     Inr (empty_report, [ErrorLine TypeError, EventLine unreached_caller_event])"
proof -
  have h: "list_all (handled repr_stub) [unreached_caller_event]"
    by (simp add: unreached_caller_event_def print_defs)
  from extract_from_trace_handled [OF h] show ?thesis
    by (simp add: unreached_caller_event_def eval_defs)
qed

theorem caller_chain_arn_witness:
  "(\<exists>rec. agents (run_events repr_stub empty_report
              ([] @ JDict [(''callerChain'',
                   JList ([] @ JDict [(''agentAliasArn'', JStr ''a/b/c'')] # []))] # []))
            (AStr ''b'') = Some rec \<and>
          agent_id rec = JStr ''b'' \<and> agent_alias_id rec = JStr ''c'' \<and>
          agent_name rec = JStr ''Agent-b'') \<and>
   (\<exists>rec. agents (run_events repr_stub empty_report
              ([identity_event ''b'' ''x'' ''Billing''] @ JDict [(''callerChain'',
                   JList ([] @ JDict [(''agentAliasArn'', JStr ''a/b/c'')] # []))] # []))
            (AStr ''b'') = Some rec \<and>
          agent_id rec = JStr ''b'' \<and> agent_alias_id rec = JStr ''x'' \<and>
          agent_name rec = JStr ''Billing'') \<and>
   caller_body (JDict [(''agentAliasArn'', JStr ''only-one-segment'')]) empty_report =
     (empty_report, None)"
proof -
  let ?c = "[(''agentAliasArn'', JStr ''a/b/c'')]"
  let ?d = "[(''callerChain'', JList ([] @ JDict ?c # []))]"
  let ?pre = "[identity_event ''b'' ''x'' ''Billing'']"
  let ?r0 = "run_events repr_stub empty_report ?pre"
  let ?rb = "\<lparr>agent_id = JStr ''b'', agent_alias_id = JStr ''x'', agent_name = JStr ''Billing'',
              agent_tool_calls = []\<rparr>"
  have run: "list_all (handled repr_stub) evs \<Longrightarrow> extract_from_trace repr_stub (JList evs) =
     Inr (run_events repr_stub empty_report evs, concat (map (event_log repr_stub) evs))" for evs
    by (rule extract_from_trace_handled)
  have h0: "list_all (handled repr_stub) []" by simp
  have hp: "list_all (handled repr_stub) ?pre" by (simp add: print_defs)
  have hd: "list_all (handled repr_stub) ([] @ JDict ?d # [])" by (simp add: print_defs)
  have hpd: "list_all (handled repr_stub) (?pre @ JDict ?d # [])" by (simp add: print_defs)
  have chain: "map_of ?d ''callerChain'' = Some (JList ([] @ JDict ?c # []))" by simp
  have arn: "map_of ?c ''agentAliasArn'' = Some (JStr ''a/b/c'')" by simp
  have noid: "map_of ?d ''agentId'' = None" by simp
  have ident: "identity_step repr_stub (JDict ?d) r = (r, None)" for r
    by (rule identity_step_absent [OF noid])
  have reach: "caller_loop [] r = (r, None)" for r by simp
  have e0: "run_events repr_stub empty_report [] = empty_report" by (rule run_events_Nil)
  have two: "2 \<le> length (split_slash ''a/b/c'')" by simp
  \<comment> \<open>the id is new\<close>
  note t1 = caller_chain_arn [OF chain arn run [OF h0] ident reach run [OF hd] refl refl]
  have n: "agents (run_events repr_stub empty_report [])
      (AStr (split_slash ''a/b/c'' ! (length (split_slash ''a/b/c'') - 2))) = None"
    by (simp add: run_events_def empty_report_def)
  note u1 = t1 [THEN conjunct2, THEN conjunct1, rule_format, OF two n]
  have 1: "\<exists>rec. agents (run_events repr_stub empty_report ([] @ JDict ?d # []))
            (AStr ''b'') = Some rec \<and>
          agent_id rec = JStr ''b'' \<and> agent_alias_id rec = JStr ''c'' \<and>
          agent_name rec = JStr ''Agent-b''"
    using u1 by simp
  \<comment> \<open>the id has a record already\<close>
  note t2 = caller_chain_arn [OF chain arn run [OF hp] ident reach run [OF hpd] refl refl]
  have b: "agents ?r0 (AStr (split_slash ''a/b/c'' ! (length (split_slash ''a/b/c'') - 2))) =
      Some ?rb"
    by (simp add: eval_defs)
  note u2 = t2 [THEN conjunct2, THEN conjunct2, THEN conjunct1, rule_format, OF two b]
  have 2: "\<exists>rec. agents (run_events repr_stub empty_report (?pre @ JDict ?d # []))
            (AStr ''b'') = Some rec \<and>
          agent_id rec = JStr ''b'' \<and> agent_alias_id rec = JStr ''x'' \<and>
          agent_name rec = JStr ''Billing''"
    using u2 by simp
  \<comment> \<open>a single segment\<close>
  let ?c1 = "[(''agentAliasArn'', JStr ''only-one-segment'')]"
  let ?d1 = "[(''callerChain'', JList ([] @ JDict ?c1 # []))]"
  have chain1: "map_of ?d1 ''callerChain'' = Some (JList ([] @ JDict ?c1 # []))" by simp
  have arn1: "map_of ?c1 ''agentAliasArn'' = Some (JStr ''only-one-segment'')" by simp
  have noid1: "map_of ?d1 ''agentId'' = None" by simp
  have ident1: "identity_step repr_stub (JDict ?d1) r = (r, None)" for r
    by (rule identity_step_absent [OF noid1])
  have one: "length (split_slash ''only-one-segment'') < 2" by simp
  have hd1: "list_all (handled repr_stub) ([] @ JDict ?d1 # [])" by (simp add: print_defs)
  note t3 = caller_chain_arn [OF chain1 arn1 run [OF h0] ident1 reach run [OF hd1] refl refl]
  from t3 [THEN conjunct2, THEN conjunct2, THEN conjunct2, rule_format, OF one]
  have 3: "caller_body (JDict ?c1) empty_report = (empty_report, None)"
    by (simp only: e0)
  from 1 2 3 show ?thesis by (intro conjI)
qed



subsection \<open>The adapters: helpers/deepeval\_helper.py\<close>




subsection \<open>The topic adherence evaluator\<close>



text \<open>
  C9. When the ground truth has no \<open>topics\<close> entry or an empty list of topics,
  \<open>evaluate_response\<close> raises the wrapped \<open>ValueError\<close> and leaves the outside world as it
  was: the scorer has not run. More generally the scorer is never called with an empty
  list of topics: changing what it does on the empty list changes nothing.
\<close>

theorem no_topics_is_an_error:
  "(map_of md ''ground_truth'' = Some (JDict gt) \<and>
    (map_of gt ''topics'' = None \<or> map_of gt ''topics'' = Some (JList [])) \<longrightarrow>
      evaluate_response rp q scorer w (JDict md) =
        (Inl (WrappedException
               (ValueError ''No topics provided in ground truth for evaluation'')), w)) \<and>
   evaluate_response rp q scorer w metadata =
     evaluate_response rp q
       (\<lambda>w ms ts. if ts = [] then other w ms ts else scorer w ms ts) w metadata"
proof (intro conjI impI)
  assume "map_of md ''ground_truth'' = Some (JDict gt) \<and>
    (map_of gt ''topics'' = None \<or> map_of gt ''topics'' = Some (JList []))"
  then have "prepare_sample rp q (JDict md) =
       Inl (ValueError ''No topics provided in ground truth for evaluation'')"
    by (auto simp: prepare_sample_def py_bind_def)
  then show "evaluate_response rp q scorer w (JDict md) =
        (Inl (WrappedException
               (ValueError ''No topics provided in ground truth for evaluation'')), w)"
    by (simp add: evaluate_response_def)
next
  show "evaluate_response rp q scorer w metadata =
     evaluate_response rp q
       (\<lambda>w ms ts. if ts = [] then other w ms ts else scorer w ms ts) w metadata"
  proof (cases "prepare_sample rp q metadata")
    case (Inl e)
    then show ?thesis by (simp add: evaluate_response_def)
  next
    case (Inr p)
    obtain topics messages where p: "p = (topics, messages)" by (cases p)
    from prepare_sample_nonempty [OF Inr [unfolded p]] have "topics \<noteq> []" .
    with Inr p show ?thesis by (simp add: evaluate_response_def)
  qed
qed

theorem no_topics_is_an_error_witness:
  "evaluate_response repr_stub (JStr ''find x'') (\<lambda>w ms ts. (Inr (1::nat), Suc w)) (0::nat)
     (JDict [(''ground_truth'', JDict [(''topics'', JList [])]),
             (''full_trace'', JList [raw_invocation_event])]) =
     (Inl (WrappedException
            (ValueError ''No topics provided in ground truth for evaluation'')), 0) \<and>
   evaluate_response repr_stub (JStr ''find x'') (\<lambda>w ms ts. (Inr (1::nat), Suc w)) (0::nat)
     (JDict [(''ground_truth'', JDict [(''expected'', JStr ''none'')])]) =
     (Inl (WrappedException
            (ValueError ''No topics provided in ground truth for evaluation'')), 0)"
proof -
  let ?md1 = "[(''ground_truth'', JDict [(''topics'', JList [])]),
             (''full_trace'', JList [raw_invocation_event])]"
  let ?gt1 = "[(''topics'', JList [])]"
  let ?gt2 = "[(''expected'', JStr ''none'')]"
  let ?md2 = "[(''ground_truth'', JDict ?gt2)]"
  have 1: "map_of ?md1 ''ground_truth'' = Some (JDict ?gt1) \<and>
    (map_of ?gt1 ''topics'' = None \<or> map_of ?gt1 ''topics'' = Some (JList []))"
    by simp
  have 2: "map_of ?md2 ''ground_truth'' = Some (JDict ?gt2) \<and>
    (map_of ?gt2 ''topics'' = None \<or> map_of ?gt2 ''topics'' = Some (JList []))"
    by simp
  note a = no_topics_is_an_error [THEN conjunct1, rule_format, OF 1]
  note b = no_topics_is_an_error [THEN conjunct1, rule_format, OF 2]
  from a b show ?thesis by (intro conjI)
qed

end
